theory Spec2Isabelle
  imports Complex_Main "HOL-Library.Word"
begin

section \<open>JavaScript strings and the UTF-8 encoder\<close>

text \<open>
  The program is TypeScript. A JavaScript string is a sequence of 16-bit UTF-16 code
  units: \<open>length\<close>, \<open>slice\<close> and the regular expression of \<open>split\<close> (no \<open>u\<close> flag)
  all count code units. \<open>TextEncoder.encode\<close> first reads the code units as Unicode
  scalar values (a high surrogate followed by a low surrogate is one supplementary
  code point, any other surrogate becomes U+FFFD) and then writes each scalar value
  as 1 to 4 bytes of UTF-8.
\<close>

type_synonym codeunit = "16 word"
type_synonym jsstring = "codeunit list"
type_synonym byte = "8 word"

definition ascii :: "string \<Rightarrow> jsstring" where
  "ascii s = map of_char s"

definition isHighSurrogate :: "codeunit \<Rightarrow> bool" where
  "isHighSurrogate c = (0xD800 \<le> c \<and> c \<le> 0xDBFF)"

definition isLowSurrogate :: "codeunit \<Rightarrow> bool" where
  "isLowSurrogate c = (0xDC00 \<le> c \<and> c \<le> 0xDFFF)"

definition isSurrogate :: "codeunit \<Rightarrow> bool" where
  "isSurrogate c = (isHighSurrogate c \<or> isLowSurrogate c)"

definition bmpScalar :: "codeunit \<Rightarrow> nat" where
  "bmpScalar c = (if isSurrogate c then 0xFFFD else unat c)"

definition pairScalar :: "codeunit \<Rightarrow> codeunit \<Rightarrow> nat" where
  "pairScalar hi lo = 0x10000 + (unat hi - 0xD800) * 0x400 + (unat lo - 0xDC00)"

fun toScalarValues :: "jsstring \<Rightarrow> nat list" where
  "toScalarValues [] = []"
| "toScalarValues [c] = [bmpScalar c]"
| "toScalarValues (c # d # cs) =
     (if isHighSurrogate c \<and> isLowSurrogate d
      then pairScalar c d # toScalarValues cs
      else bmpScalar c # toScalarValues (d # cs))"

definition utf8 :: "nat \<Rightarrow> byte list" where
  "utf8 cp =
     (if cp < 0x80 then [of_nat cp]
      else if cp < 0x800 then
        [of_nat (0xC0 + cp div 0x40), of_nat (0x80 + cp mod 0x40)]
      else if cp < 0x10000 then
        [of_nat (0xE0 + cp div 0x1000), of_nat (0x80 + cp div 0x40 mod 0x40),
         of_nat (0x80 + cp mod 0x40)]
      else
        [of_nat (0xF0 + cp div 0x40000), of_nat (0x80 + cp div 0x1000 mod 0x40),
         of_nat (0x80 + cp div 0x40 mod 0x40), of_nat (0x80 + cp mod 0x40)])"

definition encode :: "jsstring \<Rightarrow> byte list" where
  "encode s = concat (map utf8 (toScalarValues s))"

section \<open>splitTextIntoChunks\<close>

definition MAX_CHUNK_SIZE :: nat where
  "MAX_CHUNK_SIZE = 3000"

text \<open>
  \<open>text.split(/(?<=[\<dots>])/)\<close> with the five code units U+3002, U+FF0E, U+FF01, U+FF1F
  and the line feed in the class: the look-behind matches the empty string right after
  one of them. \<open>split\<close> tries every position \<open>q\<close> with \<open>0 < q < length\<close> and cuts where the
  expression matches, so a piece ends after each such code unit that is not the last
  one of the text, and the rest of the text is the last piece. The first argument
  of \<open>splitAfter\<close> is the piece read so far.
\<close>

definition isSentenceEnd :: "codeunit \<Rightarrow> bool" where
  "isSentenceEnd c = (c = 0x3002 \<or> c = 0xFF0E \<or> c = 0xFF01 \<or> c = 0xFF1F \<or> c = 0x000A)"

fun splitAfter :: "jsstring \<Rightarrow> jsstring \<Rightarrow> jsstring list" where
  "splitAfter piece [] = [piece]"
| "splitAfter piece (c # cs) =
     (if isSentenceEnd c \<and> cs \<noteq> [] then (piece @ [c]) # splitAfter [] cs
      else splitAfter (piece @ [c]) cs)"

definition splitSentences :: "jsstring \<Rightarrow> jsstring list" where
  "splitSentences text = splitAfter [] text"

text \<open>
  The two inner loops of the character fallback. \<open>remaining.slice(0, end)\<close> is
  \<open>take end remaining\<close>, since \<open>end\<close> never exceeds the length.
  \<^verbatim>\<open>while (encoder.encode(remaining.slice(0, end)).length > MAX_CHUNK_SIZE && end > 1)
    end = Math.floor(end / 2);\<close>
  \<^verbatim>\<open>while (end < remaining.length &&
         encoder.encode(remaining.slice(0, end + 1)).length <= MAX_CHUNK_SIZE) end++;\<close>
\<close>

function halveEnd :: "jsstring \<Rightarrow> nat \<Rightarrow> nat" where
  "halveEnd remaining endPos =
     (if length (encode (take endPos remaining)) > MAX_CHUNK_SIZE \<and> endPos > 1
      then halveEnd remaining (endPos div 2) else endPos)"
  by pat_completeness auto
termination
  by (relation "measure (\<lambda>(remaining, endPos). endPos)") auto

declare halveEnd.simps [simp del]

function extendEnd :: "jsstring \<Rightarrow> nat \<Rightarrow> nat" where
  "extendEnd remaining endPos =
     (if endPos < length remaining
         \<and> length (encode (take (endPos + 1) remaining)) \<le> MAX_CHUNK_SIZE
      then extendEnd remaining (endPos + 1) else endPos)"
  by pat_completeness auto
termination
  by (relation "measure (\<lambda>(remaining, endPos). length remaining - endPos)") auto

declare extendEnd.simps [simp del]

definition chunkEnd :: "jsstring \<Rightarrow> nat" where
  "chunkEnd remaining = extendEnd remaining (halveEnd remaining (length remaining))"

text \<open>
  The outer loop \<^verbatim>\<open>while (remaining) { \<dots> chunks.push(remaining.slice(0, end));
  remaining = remaining.slice(end); }\<close> runs as long as the string is not empty. Nothing
  in its text bounds the number of rounds, so it is a partial function: \<open>None\<close> stands
  for a loop that never ends.
\<close>

partial_function (option) splitByCharacters ::
  "jsstring list \<Rightarrow> jsstring \<Rightarrow> jsstring list option" where
  "splitByCharacters chunks remaining =
     (if remaining = [] then Some chunks
      else splitByCharacters (chunks @ [take (chunkEnd remaining) remaining])
             (drop (chunkEnd remaining) remaining))"

text \<open>
  The loop over the sentences, with the two variables \<open>chunks\<close> and \<open>currentChunk\<close>
  as arguments. A JavaScript string is truthy when it is not empty.
\<close>

fun sentenceLoop ::
  "jsstring list \<Rightarrow> jsstring \<Rightarrow> jsstring list \<Rightarrow> (jsstring list \<times> jsstring) option" where
  "sentenceLoop chunks currentChunk [] = Some (chunks, currentChunk)"
| "sentenceLoop chunks currentChunk (sentence # rest) =
     (if length (encode (currentChunk @ sentence)) > MAX_CHUNK_SIZE then
        (if currentChunk \<noteq> [] then sentenceLoop (chunks @ [currentChunk]) sentence rest
         else (case splitByCharacters chunks sentence of
                 None \<Rightarrow> None
               | Some chunks' \<Rightarrow> sentenceLoop chunks' currentChunk rest))
      else sentenceLoop chunks (currentChunk @ sentence) rest)"

definition splitTextIntoChunks :: "jsstring \<Rightarrow> jsstring list option" where
  "splitTextIntoChunks text =
     (if length (encode text) \<le> MAX_CHUNK_SIZE then Some [text]
      else (case sentenceLoop [] [] (splitSentences text) of
              None \<Rightarrow> None
            | Some (chunks, currentChunk) \<Rightarrow>
                Some (if currentChunk \<noteq> [] then chunks @ [currentChunk] else chunks)))"

section \<open>The annotation result and its three renderings\<close>

text \<open>
  \<open>Word\<close> has the three fields of \<open>SubWord\<close> and the optional list \<open>subword\<close>. An
  optional field that is absent is \<open>None\<close>. In a condition, a string is truthy when it
  is present and not empty, and an array is truthy whenever it is present.
\<close>

record SubWord =
  surface :: jsstring
  furigana :: "jsstring option"
  roman :: "jsstring option"

record Word = SubWord +
  subword :: "SubWord list option"

record FuriganaResult =
  word :: "Word list"

definition truthy :: "jsstring option \<Rightarrow> bool" where
  "truthy s = (case s of None \<Rightarrow> False | Some v \<Rightarrow> v \<noteq> [])"

definition orEmpty :: "jsstring option \<Rightarrow> jsstring" where
  "orEmpty s = (case s of None \<Rightarrow> [] | Some v \<Rightarrow> v)"

fun join :: "jsstring \<Rightarrow> jsstring list \<Rightarrow> jsstring" where
  "join sep [] = []"
| "join sep [x] = x"
| "join sep (x # y # ys) = x @ sep @ join sep (y # ys)"

text \<open>
  \<open>formatBracket\<close> and \<open>formatRuby\<close>: \<open>bracketPart\<close> and \<open>rubyPart\<close> are the bodies of
  their loops over the words (what is pushed for one word), \<open>subBracket\<close> and \<open>subRuby\<close>
  the functions mapped over the subwords. U+FF08 and U+FF09 are the full-width
  parentheses.
\<close>

definition subBracket :: "SubWord \<Rightarrow> jsstring" where
  "subBracket sw =
     (if truthy (furigana sw) \<and> surface sw \<noteq> orEmpty (furigana sw)
      then surface sw @ [0xFF08] @ orEmpty (furigana sw) @ [0xFF09]
      else surface sw)"

definition bracketPart :: "Word \<Rightarrow> jsstring" where
  "bracketPart w =
     (if truthy (furigana w) \<and> surface w \<noteq> orEmpty (furigana w)
      then surface w @ [0xFF08] @ orEmpty (furigana w) @ [0xFF09]
      else (case subword w of
              Some sws \<Rightarrow> join [] (map subBracket sws)
            | None \<Rightarrow> surface w))"

definition formatBracket :: "FuriganaResult \<Rightarrow> jsstring" where
  "formatBracket r = join [] (map bracketPart (word r))"

definition subRuby :: "SubWord \<Rightarrow> jsstring" where
  "subRuby sw =
     (if truthy (furigana sw) \<and> surface sw \<noteq> orEmpty (furigana sw)
      then ascii ''<ruby>'' @ surface sw @ ascii ''<rt>'' @ orEmpty (furigana sw)
             @ ascii ''</rt></ruby>''
      else surface sw)"

definition rubyPart :: "Word \<Rightarrow> jsstring" where
  "rubyPart w =
     (if truthy (furigana w) \<and> surface w \<noteq> orEmpty (furigana w)
      then ascii ''<ruby>'' @ surface w @ ascii ''<rt>'' @ orEmpty (furigana w)
             @ ascii ''</rt></ruby>''
      else (case subword w of
              Some sws \<Rightarrow> join [] (map subRuby sws)
            | None \<Rightarrow> surface w))"

definition formatRuby :: "FuriganaResult \<Rightarrow> jsstring" where
  "formatRuby r = join [] (map rubyPart (word r))"

text \<open>
  \<open>formatWithRoman\<close>: \<open>romanLine\<close> is the body of its loop, \<open>subDetail\<close> the function
  mapped over the subwords; \<open>x || ""\<close> is \<open>orEmpty x\<close>.
\<close>

definition subDetail :: "SubWord \<Rightarrow> jsstring" where
  "subDetail sw =
     ascii ''  - '' @ surface sw @ ascii '': '' @ orEmpty (furigana sw)
       @ ascii '' ('' @ orEmpty (roman sw) @ ascii '')''"

definition romanLine :: "Word \<Rightarrow> jsstring" where
  "romanLine w =
     (case subword w of
        Some sws \<Rightarrow> surface w @ [0x3A, 0x0A] @ join [0x0A] (map subDetail sws)
      | None \<Rightarrow>
          (if orEmpty (furigana w) \<noteq> [] \<or> orEmpty (roman w) \<noteq> []
           then surface w @ ascii '': '' @ orEmpty (furigana w)
                  @ ascii '' ('' @ orEmpty (roman w) @ ascii '')''
           else surface w))"

definition formatWithRoman :: "FuriganaResult \<Rightarrow> jsstring" where
  "formatWithRoman r = join [0x0A] (map romanLine (word r))"

text \<open>
  The format is a string at run time; the \<open>switch\<close> sends every value other than
  \<open>"ruby"\<close> and \<open>"roman"\<close> to the bracket style.
\<close>

definition formatResult :: "FuriganaResult \<Rightarrow> jsstring \<Rightarrow> jsstring" where
  "formatResult r format =
     (if format = ascii ''ruby'' then formatRuby r
      else if format = ascii ''roman'' then formatWithRoman r
      else formatBracket r)"

section \<open>The remote call\<close>

text \<open>
  The request body and the response share \<open>id\<close> and \<open>jsonrpc\<close>. \<open>grade\<close> is a
  JavaScript number that arrived as JSON, a rational here. The \<open>code\<close> of an error
  object is a JavaScript number that the program only ever prints, in a template
  literal; it is kept as the string that the template literal prints for it (\<open>"1"\<close>
  for 1, \<open>"-32600"\<close> for -32600, \<open>"1e+21"\<close> for 10^21), and \<open>printed\<close> reads that
  string.
\<close>

datatype jsnumber = PrintsAs jsstring

fun printed :: "jsnumber \<Rightarrow> jsstring" where
  "printed (PrintsAs s) = s"

record Envelope =
  id_rpc :: jsstring
  jsonrpc :: jsstring

record Params =
  q :: jsstring
  grade :: "rat option"

record RequestBody = Envelope +
  method_rpc :: jsstring
  params :: Params

record ApiError =
  code :: jsnumber
  message :: jsstring

record ApiResponse = Envelope +
  result :: "FuriganaResult option"
  error :: "ApiError option"

text \<open>
  A thrown value is an \<open>Error\<close> with its message, or something else. \<open>fetch\<close> either
  rejects or gives a response with \<open>ok\<close>, \<open>status\<close>, \<open>statusText\<close> and a body that
  \<open>json()\<close> parses or rejects. The remote service is a parameter: it answers the
  \<open>k\<close>-th request of an invocation (counted from 0) from \<open>k\<close> and the body sent. The
  bodies sent so far are the state, passed along and returned; the endpoint, the HTTP
  method and the headers are the same in every call and are left out.
\<close>

datatype thrown = Error jsstring | NotAnError

record HttpResponse =
  ok :: bool
  status :: nat
  statusText :: jsstring
  json :: "thrown + ApiResponse"

datatype fetched = Rejected thrown | Fulfilled HttpResponse

type_synonym remote = "nat \<Rightarrow> RequestBody \<Rightarrow> fetched"

text \<open>
  \<open>numberToString\<close> prints a natural number in decimal, as a template literal prints
  the HTTP status, \<open>i + 1\<close> and \<open>chunks.length\<close>.
\<close>

function numberToString :: "nat \<Rightarrow> jsstring" where
  "numberToString n =
     (if n < 10 then [of_nat (48 + n)]
      else numberToString (n div 10) @ [of_nat (48 + n mod 10)])"
  by pat_completeness auto
termination
  by (relation "measure id") auto

declare numberToString.simps [simp del]

definition requestBody :: "jsstring \<Rightarrow> rat option \<Rightarrow> RequestBody" where
  "requestBody text g =
     \<lparr>id_rpc = ascii ''1'', jsonrpc = ascii ''2.0'',
      method_rpc = ascii ''jlp.furiganaservice.furigana'',
      params = \<lparr>q = text,
                grade = (case g of
                           None \<Rightarrow> None
                         | Some v \<Rightarrow> if 1 \<le> v \<and> v \<le> 8 then Some v else None)\<rparr>\<rparr>"

definition getFurigana ::
  "remote \<Rightarrow> RequestBody list \<Rightarrow> jsstring \<Rightarrow> rat option
     \<Rightarrow> (thrown + ApiResponse) \<times> RequestBody list" where
  "getFurigana service sent text g =
     (let body = requestBody text g; sent' = sent @ [body] in
      case service (length sent) body of
        Rejected e \<Rightarrow> (Inl e, sent')
      | Fulfilled response \<Rightarrow>
          if \<not> ok response then
            (Inl (Error (ascii ''HTTP error: '' @ numberToString (status response)
                          @ ascii '' '' @ statusText response)), sent')
          else (json response, sent'))"

section \<open>processTextWithChunking and the tool\<close>

text \<open>
  The Japanese words of the messages, as code units: \<open>API_ERROR\<close> is \<open>"API"\<close> and the
  three katakana of "error", \<open>NO_RESULT\<close> the sentence "the result could not be
  obtained", \<open>CHUNK\<close> the four katakana of "chunk", \<open>ERROR_OCCURRED\<close> the sentence
  "an error occurred". \<open>chunkPosition i n\<close> is the part \<^verbatim>\<open>(CHUNK ${i + 1}/${n})\<close> of
  the two messages of the loop, where \<open>n\<close> is \<open>chunks.length\<close>.
\<close>

definition API_ERROR :: jsstring where
  "API_ERROR = [0x0041, 0x0050, 0x0049, 0x30A8, 0x30E9, 0x30FC]"

definition NO_RESULT :: jsstring where
  "NO_RESULT = [0x7D50, 0x679C, 0x304C, 0x53D6, 0x5F97, 0x3067, 0x304D, 0x307E, 0x305B,
                0x3093, 0x3067, 0x3057, 0x305F]"

definition CHUNK :: jsstring where
  "CHUNK = [0x30C1, 0x30E3, 0x30F3, 0x30AF]"

definition ERROR_OCCURRED :: jsstring where
  "ERROR_OCCURRED = [0x30A8, 0x30E9, 0x30FC, 0x304C, 0x767A, 0x751F, 0x3057, 0x307E, 0x3057,
                     0x305F]"

definition chunkPosition :: "nat \<Rightarrow> nat \<Rightarrow> jsstring" where
  "chunkPosition i n =
     ascii ''('' @ CHUNK @ ascii '' '' @ numberToString (i + 1) @ ascii ''/''
       @ numberToString n @ ascii '')''"

text \<open>
  The loop \<^verbatim>\<open>for (let i = 0; i < chunks.length; i++)\<close> with \<open>i\<close>, \<open>results\<close> and the
  requests sent so far as arguments. An exception ends the loop with \<open>Inl\<close>.
\<close>

function chunkLoop ::
  "remote \<Rightarrow> jsstring list \<Rightarrow> rat option \<Rightarrow> jsstring \<Rightarrow> nat \<Rightarrow> jsstring list
     \<Rightarrow> RequestBody list \<Rightarrow> (thrown + jsstring list) \<times> RequestBody list" where
  "chunkLoop service chunks g format i results sent =
     (if i < length chunks then
        (case getFurigana service sent (chunks ! i) g of
           (Inl e, sent') \<Rightarrow> (Inl e, sent')
         | (Inr response, sent') \<Rightarrow>
             (case error response of
                Some err \<Rightarrow>
                  (Inl (Error (API_ERROR @ ascii '' '' @ chunkPosition i (length chunks)
                                @ ascii '': '' @ message err)), sent')
              | None \<Rightarrow>
                  (case result response of
                     None \<Rightarrow>
                       (Inl (Error (NO_RESULT @ ascii '' ''
                                     @ chunkPosition i (length chunks))), sent')
                   | Some r \<Rightarrow>
                       chunkLoop service chunks g format (i + 1)
                         (results @ [formatResult r format]) sent')))
      else (Inr results, sent))"
  by pat_completeness auto
termination
  by (relation "measure (\<lambda>(service, chunks, g, format, i, results, sent). length chunks - i)")
    auto

declare chunkLoop.simps [simp del]

text \<open>
  \<open>processChunks\<close> is the body of \<open>processTextWithChunking\<close> after its first line,
  with the chunks as an argument; \<open>processTextWithChunking\<close> itself returns nothing
  (\<open>None\<close>) if the splitter does not return.
\<close>

definition processChunks ::
  "remote \<Rightarrow> RequestBody list \<Rightarrow> jsstring \<Rightarrow> jsstring list \<Rightarrow> rat option \<Rightarrow> jsstring
     \<Rightarrow> (thrown + jsstring) \<times> RequestBody list" where
  "processChunks service sent text chunks g format =
     (if length chunks = 1 then
        (case getFurigana service sent text g of
           (Inl e, sent') \<Rightarrow> (Inl e, sent')
         | (Inr response, sent') \<Rightarrow>
             (case error response of
                Some err \<Rightarrow>
                  (Inl (Error (API_ERROR @ ascii '': '' @ message err @ ascii '' (code: ''
                                @ printed (code err) @ ascii '')'')), sent')
              | None \<Rightarrow>
                  (case result response of
                     None \<Rightarrow> (Inl (Error NO_RESULT), sent')
                   | Some r \<Rightarrow> (Inr (formatResult r format), sent'))))
      else
        (case chunkLoop service chunks g format 0 [] sent of
           (Inl e, sent') \<Rightarrow> (Inl e, sent')
         | (Inr results, sent') \<Rightarrow>
             (Inr (if format = ascii ''roman'' then join [0x0A] results else join [] results),
              sent')))"

definition processTextWithChunking ::
  "remote \<Rightarrow> RequestBody list \<Rightarrow> jsstring \<Rightarrow> rat option \<Rightarrow> jsstring
     \<Rightarrow> ((thrown + jsstring) \<times> RequestBody list) option" where
  "processTextWithChunking service sent text g format =
     (case splitTextIntoChunks text of
        None \<Rightarrow> None
      | Some chunks \<Rightarrow> Some (processChunks service sent text chunks g format))"

text \<open>
  The handler of \<open>gen_furigana\<close>: \<open>output_format || "ruby"\<close>, then the \<open>try\<close> block with
  its \<open>catch\<close>. The result is the text of the one content item and the \<open>isError\<close> flag.
\<close>

record ToolResult =
  content :: jsstring
  isError :: bool

definition handler ::
  "remote \<Rightarrow> RequestBody list \<Rightarrow> jsstring \<Rightarrow> rat option \<Rightarrow> jsstring option
     \<Rightarrow> (ToolResult \<times> RequestBody list) option" where
  "handler service sent text g output_format =
     (let format = (if truthy output_format then orEmpty output_format else ascii ''ruby'') in
      case processTextWithChunking service sent text g format of
        None \<Rightarrow> None
      | Some (Inr formatted, sent') \<Rightarrow> Some (\<lparr>content = formatted, isError = False\<rparr>, sent')
      | Some (Inl e, sent') \<Rightarrow>
          Some (\<lparr>content = ERROR_OCCURRED @ ascii '': ''
                    @ (case e of Error m \<Rightarrow> m | NotAnError \<Rightarrow> ascii ''Unknown error''),
                 isError = True\<rparr>, sent'))"

text \<open>
  The tool is registered with a schema: \<open>text\<close> a string, \<open>grade\<close> an optional number
  with \<open>min(1)\<close> and \<open>max(8)\<close>, \<open>output_format\<close> an optional member of the enumeration.
  The server checks the arguments against the schema and calls the handler only when
  they pass.
\<close>

definition schemaAccepts :: "rat option \<Rightarrow> jsstring option \<Rightarrow> bool" where
  "schemaAccepts g output_format =
     ((case g of None \<Rightarrow> True | Some v \<Rightarrow> 1 \<le> v \<and> v \<le> 8)
      \<and> (case output_format of
            None \<Rightarrow> True
          | Some f \<Rightarrow> f = ascii ''bracket'' \<or> f = ascii ''ruby'' \<or> f = ascii ''roman''))"

datatype toolOutcome = InvalidArguments | Handled ToolResult

definition gen_furigana ::
  "remote \<Rightarrow> RequestBody list \<Rightarrow> jsstring \<Rightarrow> rat option \<Rightarrow> jsstring option
     \<Rightarrow> (toolOutcome \<times> RequestBody list) option" where
  "gen_furigana service sent text g output_format =
     (if schemaAccepts g output_format then
        (case handler service sent text g output_format of
           None \<Rightarrow> None
         | Some (r, sent') \<Rightarrow> Some (Handled r, sent'))
      else Some (InvalidArguments, sent))"

section \<open>Sample data\<close>

text \<open>
  Words, responses and remote services for the concrete runs below: the particle U+306E
  whose reading is itself, a word whose reading is carried by its subword, the answer of
  the service for U+6F22 U+5B57, a service that always gives that answer, and two
  services whose second answer is a failure (HTTP status 500, and an error object
  with code 1 and message \<open>"x"\<close>).
\<close>

definition particleNo :: Word where
  "particleNo = \<lparr>surface = [0x306E], furigana = Some [0x306E], roman = Some (ascii ''no''),
                  subword = None\<rparr>"

definition kanjiWithSubword :: Word where
  "kanjiWithSubword =
     \<lparr>surface = [0x6F22], furigana = Some [0x6F22], roman = None,
      subword = Some [\<lparr>surface = [0x6F22], furigana = Some [0x304B, 0x3093], roman = None\<rparr>]\<rparr>"

definition kanjiResult :: FuriganaResult where
  "kanjiResult =
     \<lparr>word = [\<lparr>surface = [0x6F22, 0x5B57], furigana = Some [0x304B, 0x3093, 0x3058],
               roman = Some (ascii ''kanzi''), subword = None\<rparr>]\<rparr>"

definition kanjiResponse :: ApiResponse where
  "kanjiResponse =
     \<lparr>id_rpc = ascii ''1'', jsonrpc = ascii ''2.0'', result = Some kanjiResult, error = None\<rparr>"

definition okResponse :: HttpResponse where
  "okResponse = \<lparr>ok = True, status = 200, statusText = ascii ''OK'', json = Inr kanjiResponse\<rparr>"

definition okService :: remote where
  "okService k body = Fulfilled okResponse"

definition secondCallFails :: remote where
  "secondCallFails k body =
     (if k = 0 then Fulfilled okResponse
      else Fulfilled \<lparr>ok = False, status = 500, statusText = ascii ''Internal Server Error'',
                      json = Inl (Error (ascii ''Unexpected end of JSON input''))\<rparr>)"

definition secondCallReportsError :: remote where
  "secondCallReportsError k body =
     (if k = 0 then Fulfilled okResponse
      else Fulfilled \<lparr>ok = True, status = 200, statusText = ascii ''OK'',
                      json = Inr \<lparr>id_rpc = ascii ''1'', jsonrpc = ascii ''2.0'', result = None,
                                  error = Some \<lparr>code = PrintsAs (ascii ''1''),
                                                message = ascii ''x''\<rparr>\<rparr>\<rparr>)"

section \<open>Properties of the splitter\<close>

lemma halveEnd_step:
  "length (encode (take endPos remaining)) > MAX_CHUNK_SIZE \<and> endPos > 1
   \<Longrightarrow> halveEnd remaining endPos = halveEnd remaining (endPos div 2)"
  by (subst halveEnd.simps) (rule if_P)

lemma halveEnd_stop:
  "\<not> (length (encode (take endPos remaining)) > MAX_CHUNK_SIZE \<and> endPos > 1)
   \<Longrightarrow> halveEnd remaining endPos = endPos"
  by (subst halveEnd.simps) (rule if_not_P)

lemma extendEnd_step:
  "endPos < length remaining
     \<and> length (encode (take (endPos + 1) remaining)) \<le> MAX_CHUNK_SIZE
   \<Longrightarrow> extendEnd remaining endPos = extendEnd remaining (endPos + 1)"
  by (subst extendEnd.simps) (rule if_P)

lemma extendEnd_stop:
  "\<not> (endPos < length remaining
     \<and> length (encode (take (endPos + 1) remaining)) \<le> MAX_CHUNK_SIZE)
   \<Longrightarrow> extendEnd remaining endPos = endPos"
  by (subst extendEnd.simps) (rule if_not_P)

lemma halveEnd_ge1: "1 \<le> endPos \<Longrightarrow> 1 \<le> halveEnd remaining endPos"
proof (induction remaining endPos rule: halveEnd.induct)
  case (1 remaining endPos)
  show ?case
  proof (cases "length (encode (take endPos remaining)) > MAX_CHUNK_SIZE \<and> endPos > 1")
    case True
    then have "1 \<le> endPos div 2" by presburger
    with 1 True have "1 \<le> halveEnd remaining (endPos div 2)" by blast
    then show ?thesis by (simp only: halveEnd_step [OF True])
  next
    case False
    from 1 show ?thesis by (simp only: halveEnd_stop [OF False])
  qed
qed

lemma halveEnd_le: "halveEnd remaining endPos \<le> endPos"
proof (induction remaining endPos rule: halveEnd.induct)
  case (1 remaining endPos)
  show ?case
  proof (cases "length (encode (take endPos remaining)) > MAX_CHUNK_SIZE \<and> endPos > 1")
    case True
    with 1 have "halveEnd remaining (endPos div 2) \<le> endPos div 2" by blast
    moreover have "endPos div 2 \<le> endPos" by simp
    ultimately have "halveEnd remaining (endPos div 2) \<le> endPos" by (rule order_trans)
    then show ?thesis by (simp only: halveEnd_step [OF True])
  next
    case False
    show ?thesis by (simp only: halveEnd_stop [OF False] order_refl)
  qed
qed

lemma extendEnd_ge: "endPos \<le> extendEnd remaining endPos"
proof (induction remaining endPos rule: extendEnd.induct)
  case (1 remaining endPos)
  show ?case
  proof (cases "endPos < length remaining
      \<and> length (encode (take (endPos + 1) remaining)) \<le> MAX_CHUNK_SIZE")
    case True
    with 1 have "endPos + 1 \<le> extendEnd remaining (endPos + 1)" by blast
    then have "endPos \<le> extendEnd remaining (endPos + 1)" by simp
    then show ?thesis by (simp only: extendEnd_step [OF True])
  next
    case False
    show ?thesis by (simp only: extendEnd_stop [OF False] order_refl)
  qed
qed

lemma extendEnd_le:
  "endPos \<le> length remaining \<Longrightarrow> extendEnd remaining endPos \<le> length remaining"
proof (induction remaining endPos rule: extendEnd.induct)
  case (1 remaining endPos)
  show ?case
  proof (cases "endPos < length remaining
      \<and> length (encode (take (endPos + 1) remaining)) \<le> MAX_CHUNK_SIZE")
    case True
    then have "endPos + 1 \<le> length remaining" by simp
    with 1 True have "extendEnd remaining (endPos + 1) \<le> length remaining" by blast
    then show ?thesis by (simp only: extendEnd_step [OF True])
  next
    case False
    from 1 show ?thesis by (simp only: extendEnd_stop [OF False])
  qed
qed

lemma chunkEnd_ge1: "remaining \<noteq> [] \<Longrightarrow> 1 \<le> chunkEnd remaining"
proof -
  assume "remaining \<noteq> []"
  then have "1 \<le> length remaining" by (cases remaining) simp_all
  then have "1 \<le> halveEnd remaining (length remaining)" by (rule halveEnd_ge1)
  also have "\<dots> \<le> chunkEnd remaining" unfolding chunkEnd_def by (rule extendEnd_ge)
  finally show ?thesis .
qed

lemma chunkEnd_le: "chunkEnd remaining \<le> length remaining"
  unfolding chunkEnd_def by (rule extendEnd_le) (rule halveEnd_le)

lemma splitByCharacters_returns:
  "\<exists>cs. splitByCharacters chunks remaining = Some (chunks @ cs)
        \<and> concat cs = remaining \<and> (\<forall>c \<in> set cs. c \<noteq> [])"
proof (induction "length remaining" arbitrary: chunks remaining rule: less_induct)
  case less
  show ?case
  proof (cases "remaining = []")
    case True
    then show ?thesis by (simp add: splitByCharacters.simps)
  next
    case False
    let ?e = "chunkEnd remaining"
    have e1: "1 \<le> ?e" using False by (rule chunkEnd_ge1)
    have e2: "?e \<le> length remaining" by (rule chunkEnd_le)
    have shorter: "length (drop ?e remaining) < length remaining"
      using e1 False by simp
    from less [OF shorter, of "chunks @ [take ?e remaining]"]
    obtain cs where
      run: "splitByCharacters (chunks @ [take ?e remaining]) (drop ?e remaining)
            = Some ((chunks @ [take ?e remaining]) @ cs)"
      and cat: "concat cs = drop ?e remaining"
      and ne: "\<forall>c \<in> set cs. c \<noteq> []"
      by blast
    have first: "take ?e remaining \<noteq> []" using e1 False by simp
    have "splitByCharacters chunks remaining = Some (chunks @ (take ?e remaining # cs))"
      using False run by (subst splitByCharacters.simps) simp
    moreover have "concat (take ?e remaining # cs) = remaining"
      using cat by simp
    moreover have "\<forall>c \<in> set (take ?e remaining # cs). c \<noteq> []"
      using first ne by simp
    ultimately show ?thesis by blast
  qed
qed

lemma sentenceLoop_returns:
  "\<exists>chunks' cur'. sentenceLoop chunks cur sentences = Some (chunks', cur')
      \<and> concat chunks' @ cur' = concat chunks @ cur @ concat sentences
      \<and> ((\<forall>c \<in> set chunks. c \<noteq> []) \<longrightarrow> (\<forall>c \<in> set chunks'. c \<noteq> []))"
proof (induction sentences arbitrary: chunks cur)
  case Nil
  show ?case by simp
next
  case (Cons sentence rest)
  show ?case
  proof (cases "length (encode (cur @ sentence)) > MAX_CHUNK_SIZE")
    case False
    from Cons [of chunks "cur @ sentence"] False show ?thesis by simp
  next
    case big: True
    show ?thesis
    proof (cases "cur = []")
      case False
      from Cons [of "chunks @ [cur]" sentence] big False show ?thesis by simp
    next
      case True
      from splitByCharacters_returns [of chunks sentence]
      obtain cs where run: "splitByCharacters chunks sentence = Some (chunks @ cs)"
        and cat: "concat cs = sentence" and ne: "\<forall>c \<in> set cs. c \<noteq> []"
        by blast
      from Cons [of "chunks @ cs" cur] big True run cat ne show ?thesis
        by auto
    qed
  qed
qed

lemma concat_splitAfter: "concat (splitAfter piece s) = piece @ s"
  by (induction s arbitrary: piece) simp_all

lemma toScalarValues_Cons:
  "\<not> isHighSurrogate c \<Longrightarrow> toScalarValues (c # s) = bmpScalar c # toScalarValues s"
  by (cases s) simp_all

lemma encode_Nil: "encode [] = []"
  by (simp add: encode_def)

lemma encode_Cons:
  "\<not> isHighSurrogate c \<Longrightarrow> encode (c # s) = utf8 (bmpScalar c) @ encode s"
  by (simp add: encode_def toScalarValues_Cons)

lemma encode_pair:
  "isHighSurrogate c \<Longrightarrow> isLowSurrogate d
   \<Longrightarrow> encode (c # d # s) = utf8 (pairScalar c d) @ encode s"
  by (simp add: encode_def)

lemma toScalarValues_plain:
  "\<forall>c \<in> set s. \<not> isSurrogate c \<Longrightarrow> toScalarValues s = map unat s"
proof (induction s)
  case Nil
  show ?case by simp
next
  case (Cons c s)
  then have "\<not> isHighSurrogate c" and "bmpScalar c = unat c"
    by (simp_all add: isSurrogate_def bmpScalar_def)
  with Cons show ?case by (simp add: toScalarValues_Cons)
qed

lemma encode_plain_append:
  "\<forall>c \<in> set (a @ b). \<not> isSurrogate c \<Longrightarrow> encode (a @ b) = encode a @ encode b"
  by (simp add: encode_def toScalarValues_plain)

lemma length_encode_replicate_b: "length (encode (replicate n 0x62)) = n"
proof (induction n)
  case 0
  show ?case by (simp add: encode_Nil)
next
  case (Suc n)
  have "\<not> isHighSurrogate 0x62" by (simp add: isHighSurrogate_def)
  then have "encode (0x62 # replicate n 0x62) = utf8 (bmpScalar 0x62) @ encode (replicate n 0x62)"
    by (rule encode_Cons)
  moreover have "length (utf8 (bmpScalar 0x62)) = 1"
    by (simp add: utf8_def bmpScalar_def isSurrogate_def isHighSurrogate_def isLowSurrogate_def)
  ultimately show ?case using Suc by simp
qed

lemma length_encode_head: "length (encode [0x61, 0x3002]) = 4"
  by (simp add: encode_def utf8_def bmpScalar_def isSurrogate_def isHighSurrogate_def
      isLowSurrogate_def)

lemma length_encode_long_second:
  "length (encode (0x61 # 0x3002 # replicate n 0x62)) = 4 + n"
proof -
  have "\<forall>c \<in> set ([0x61, 0x3002] @ replicate n 0x62). \<not> isSurrogate c"
    by (auto simp add: isSurrogate_def isHighSurrogate_def isLowSurrogate_def)
  then have "encode ([0x61, 0x3002] @ replicate n 0x62)
             = encode [0x61, 0x3002] @ encode (replicate n 0x62)"
    by (rule encode_plain_append)
  then show ?thesis by (simp add: length_encode_head length_encode_replicate_b)
qed

lemma splitAfter_plain:
  "\<forall>c \<in> set s. \<not> isSentenceEnd c \<Longrightarrow> splitAfter piece s = [piece @ s]"
  by (induction s arbitrary: piece) simp_all

lemma splitSentences_long_second:
  "0 < n \<Longrightarrow> splitSentences (0x61 # 0x3002 # replicate n 0x62)
              = [[0x61, 0x3002], replicate n 0x62]"
proof -
  assume "0 < n"
  then have ne: "replicate n (0x62 :: codeunit) \<noteq> []" by simp
  have plain: "\<forall>c \<in> set (replicate n (0x62 :: codeunit)). \<not> isSentenceEnd c"
    by (simp add: isSentenceEnd_def)
  have a: "\<not> isSentenceEnd 0x61" and b: "isSentenceEnd 0x3002"
    by (simp_all add: isSentenceEnd_def)
  show ?thesis
    unfolding splitSentences_def
    using ne a b splitAfter_plain [OF plain, of "[]"] by simp
qed

lemma splitTextIntoChunks_long_second:
  assumes "MAX_CHUNK_SIZE < n"
  shows "splitTextIntoChunks (0x61 # 0x3002 # replicate n 0x62)
         = Some [[0x61, 0x3002], replicate n 0x62]"
proof -
  from assms have pos: "0 < n" by simp
  have big: "\<not> length (encode (0x61 # 0x3002 # replicate n 0x62)) \<le> MAX_CHUNK_SIZE"
    using assms by (simp add: length_encode_long_second)
  have first: "\<not> MAX_CHUNK_SIZE < length (encode [0x61, 0x3002])"
    by (simp add: length_encode_head MAX_CHUNK_SIZE_def)
  have second: "MAX_CHUNK_SIZE < length (encode ([0x61, 0x3002] @ replicate n 0x62))"
    using big by simp
  have loop: "sentenceLoop [] [] [[0x61, 0x3002], replicate n 0x62]
        = Some ([[0x61, 0x3002]], replicate n 0x62)"
    using first second by simp
  have split: "splitSentences (0x61 # 0x3002 # replicate n 0x62)
        = [[0x61, 0x3002], replicate n 0x62]"
    using pos by (rule splitSentences_long_second)
  have "replicate n (0x62 :: codeunit) \<noteq> []" using pos by simp
  then show ?thesis
    by (simp only: splitTextIntoChunks_def big if_False split loop option.case prod.case)
      simp
qed

lemma chunkEnd_exact:
  assumes ne: "B \<noteq> []"
    and fits: "length (encode A) \<le> MAX_CHUNK_SIZE"
    and over: "MAX_CHUNK_SIZE < length (encode (A @ [hd B]))"
    and start: "halveEnd (A @ B) (length (A @ B)) = length A"
  shows "chunkEnd (A @ B) = length A"
proof -
  have "take (length A + 1) (A @ B) = A @ [hd B]"
    using ne by (cases B) simp_all
  with over have "\<not> (length A < length (A @ B)
      \<and> length (encode (take (length A + 1) (A @ B))) \<le> MAX_CHUNK_SIZE)"
    by simp
  then have "extendEnd (A @ B) (length A) = length A" by (rule extendEnd_stop)
  with start show ?thesis by (simp add: chunkEnd_def)
qed

lemma chunkEnd_whole:
  assumes "length (encode B) \<le> MAX_CHUNK_SIZE"
  shows "chunkEnd B = length B"
proof -
  from assms have "\<not> (length (encode (take (length B) B)) > MAX_CHUNK_SIZE \<and> length B > 1)"
    by simp
  then have "halveEnd B (length B) = length B" by (rule halveEnd_stop)
  moreover have "extendEnd B (length B) = length B"
    by (rule extendEnd_stop) simp
  ultimately show ?thesis by (simp add: chunkEnd_def)
qed

lemma halveEnd_once:
  assumes same: "length A = length B" and ne: "B \<noteq> []"
    and big: "MAX_CHUNK_SIZE < length (encode (A @ B))"
    and fits: "length (encode A) \<le> MAX_CHUNK_SIZE"
  shows "halveEnd (A @ B) (length (A @ B)) = length A"
proof -
  from ne same have many: "1 < length (A @ B)" by (cases B) simp_all
  have half: "length (A @ B) div 2 = length A" using same by simp
  have "halveEnd (A @ B) (length (A @ B)) = halveEnd (A @ B) (length (A @ B) div 2)"
    by (rule halveEnd_step) (use big many in simp)
  also have "\<dots> = halveEnd (A @ B) (length A)" by (simp only: half)
  also have "\<dots> = length A"
    by (rule halveEnd_stop) (use fits in simp)
  finally show ?thesis .
qed

lemma splitByCharacters_two:
  assumes same: "length A = length B" and ne: "B \<noteq> []"
    and big: "MAX_CHUNK_SIZE < length (encode (A @ B))"
    and fitsA: "length (encode A) \<le> MAX_CHUNK_SIZE"
    and over: "MAX_CHUNK_SIZE < length (encode (A @ [hd B]))"
    and fitsB: "length (encode B) \<le> MAX_CHUNK_SIZE"
  shows "splitByCharacters chunks (A @ B) = Some (chunks @ [A, B])"
proof -
  have e1: "chunkEnd (A @ B) = length A"
    using ne fitsA over halveEnd_once [OF same ne big fitsA] by (rule chunkEnd_exact)
  have e2: "chunkEnd B = length B" using fitsB by (rule chunkEnd_whole)
  have "splitByCharacters chunks (A @ B) = splitByCharacters (chunks @ [A]) B"
    using ne e1 by (subst splitByCharacters.simps) simp
  also have "\<dots> = splitByCharacters ((chunks @ [A]) @ [B]) []"
    using ne e2 by (subst splitByCharacters.simps) simp
  also have "\<dots> = Some (chunks @ [A, B])"
    by (subst splitByCharacters.simps) simp
  finally show ?thesis .
qed

lemma length_encode_pairs:
  "length (encode (concat (replicate n [0xD83D, 0xDE00]) @ s)) = 4 * n + length (encode s)"
proof (induction n)
  case 0
  show ?case by simp
next
  case (Suc n)
  have hi: "isHighSurrogate 0xD83D" by (simp add: isHighSurrogate_def)
  have lo: "isLowSurrogate 0xDE00" by (simp add: isLowSurrogate_def)
  have four: "length (utf8 (pairScalar 0xD83D 0xDE00)) = 4"
    by (simp add: utf8_def pairScalar_def)
  have "encode (concat (replicate (Suc n) [0xD83D, 0xDE00]) @ s)
        = utf8 (pairScalar 0xD83D 0xDE00) @ encode (concat (replicate n [0xD83D, 0xDE00]) @ s)"
    using encode_pair [OF hi lo] by simp
  with Suc four show ?case by simp
qed

lemma length_encode_a: "length (encode (0x61 # s)) = 1 + length (encode s)"
proof -
  have "\<not> isHighSurrogate 0x61" by (simp add: isHighSurrogate_def)
  then have "encode (0x61 # s) = utf8 (bmpScalar 0x61) @ encode s" by (rule encode_Cons)
  then show ?thesis
    by (simp add: utf8_def bmpScalar_def isSurrogate_def isHighSurrogate_def isLowSurrogate_def)
qed

lemma length_encode_lo: "length (encode (0xDE00 # s)) = 3 + length (encode s)"
proof -
  have "\<not> isHighSurrogate 0xDE00" by (simp add: isHighSurrogate_def)
  then have "encode (0xDE00 # s) = utf8 (bmpScalar 0xDE00) @ encode s" by (rule encode_Cons)
  then show ?thesis
    by (simp add: utf8_def bmpScalar_def isSurrogate_def isHighSurrogate_def isLowSurrogate_def)
qed

lemma length_encode_hi: "length (encode [0xD83D]) = 3"
  by (simp add: encode_def utf8_def bmpScalar_def isSurrogate_def isHighSurrogate_def)

lemma length_encode_hi_lo: "length (encode [0xD83D, 0xDE00]) = 4"
  using length_encode_pairs [of 1 "[]"] by (simp add: encode_Nil)

lemma length_encode_b: "length (encode [0x62]) = 1"
  using length_encode_replicate_b [of 1] by simp

lemma splitTextIntoChunks_two:
  assumes same: "length A = length B" and ne: "B \<noteq> []"
    and big: "MAX_CHUNK_SIZE < length (encode (A @ B))"
    and fitsA: "length (encode A) \<le> MAX_CHUNK_SIZE"
    and over: "MAX_CHUNK_SIZE < length (encode (A @ [hd B]))"
    and fitsB: "length (encode B) \<le> MAX_CHUNK_SIZE"
    and plain: "\<forall>c \<in> set (A @ B). \<not> isSentenceEnd c"
  shows "splitTextIntoChunks (A @ B) = Some [A, B]"
proof -
  have split: "splitSentences (A @ B) = [A @ B]"
    unfolding splitSentences_def using splitAfter_plain [OF plain, of "[]"] by simp
  have chars: "splitByCharacters [] (A @ B) = Some [A, B]"
    using splitByCharacters_two [OF same ne big fitsA over fitsB, of "[]"] by simp
  have big': "MAX_CHUNK_SIZE < length (encode ([] @ A @ B))" using big by simp
  have loop: "sentenceLoop [] [] [A @ B] = Some ([A, B], [])"
    by (simp only: sentenceLoop.simps big' if_True chars option.case) simp
  have notsmall: "\<not> length (encode (A @ B)) \<le> MAX_CHUNK_SIZE" using big by simp
  show ?thesis
    by (simp only: splitTextIntoChunks_def notsmall if_False split loop option.case prod.case)
      simp
qed

lemma pairs_plain: "\<forall>c \<in> set (concat (replicate n [0xD83D, 0xDE00])). \<not> isSentenceEnd c"
  by (induction n) (simp_all add: isSentenceEnd_def)

lemma utf8_grinning: "utf8 (pairScalar 0xD83D 0xDE00) = [0xF0, 0x9F, 0x98, 0x80]"
  by (simp add: utf8_def pairScalar_def)

lemma encode_pairs:
  "encode (concat (replicate n [0xD83D, 0xDE00]) @ s)
   = concat (replicate n [0xF0, 0x9F, 0x98, 0x80]) @ encode s"
proof (induction n)
  case 0
  show ?case by simp
next
  case (Suc n)
  have hi: "isHighSurrogate 0xD83D" by (simp add: isHighSurrogate_def)
  have lo: "isLowSurrogate 0xDE00" by (simp add: isLowSurrogate_def)
  have "encode (concat (replicate (Suc n) [0xD83D, 0xDE00]) @ s)
        = utf8 (pairScalar 0xD83D 0xDE00) @ encode (concat (replicate n [0xD83D, 0xDE00]) @ s)"
    using encode_pair [OF hi lo] by simp
  with Suc show ?case by (simp add: utf8_grinning)
qed

lemma encode_a: "encode (0x61 # s) = 0x61 # encode s"
proof -
  have "\<not> isHighSurrogate 0x61" by (simp add: isHighSurrogate_def)
  then have "encode (0x61 # s) = utf8 (bmpScalar 0x61) @ encode s" by (rule encode_Cons)
  then show ?thesis
    by (simp add: utf8_def bmpScalar_def isSurrogate_def isHighSurrogate_def isLowSurrogate_def)
qed

lemma encode_lone_hi: "encode [0xD83D] = [0xEF, 0xBF, 0xBD]"
  by (simp add: encode_def utf8_def bmpScalar_def isSurrogate_def isHighSurrogate_def)

lemma first_chunk_not_prefix:
  "take (length (encode (0x61 # concat (replicate 749 [0xD83D, 0xDE00]) @ [0xD83D])))
     (encode ((0x61 # concat (replicate 749 [0xD83D, 0xDE00]) @ [0xD83D])
               @ (0xDE00 # concat (replicate 749 [0xD83D, 0xDE00]) @ [0x62])))
   \<noteq> encode (0x61 # concat (replicate 749 [0xD83D, 0xDE00]) @ [0xD83D])"
proof -
  let ?P = "concat (replicate 749 [0xD83D, 0xDE00 :: codeunit])"
  let ?R = "concat (replicate 749 [0xF0, 0x9F, 0x98, 0x80 :: byte])"
  let ?A = "0x61 # ?P @ [0xD83D]"
  let ?B = "0xDE00 # ?P @ [0x62]"
  have lenR: "length ?R = 2996" by (simp add: length_concat sum_list_replicate)
  have encA: "encode ?A = 0x61 # ?R @ [0xEF, 0xBF, 0xBD]"
    by (simp only: encode_a encode_pairs encode_lone_hi)
  have "?A @ ?B = 0x61 # ?P @ (concat (replicate 1 [0xD83D, 0xDE00]) @ ?P @ [0x62])" by simp
  then have encAB: "encode (?A @ ?B)
      = 0x61 # ?R @ ([0xF0, 0x9F, 0x98, 0x80] @ encode (?P @ [0x62]))"
    by (simp only: encode_a encode_pairs) simp
  have "take (length (encode ?A)) (encode (?A @ ?B)) = 0x61 # ?R @ [0xF0, 0x9F, 0x98]"
    by (simp only: encA encAB) (simp add: lenR)
  then show ?thesis by (simp only: encA) simp
qed

subsection \<open>Claims about the splitter\<close>

text \<open>
  C2: for every text, the splitter returns a list of chunks, and the chunks joined in
  order with no separator are the text.
\<close>

theorem splitTextIntoChunks_roundtrip:
  "\<exists>chunks. splitTextIntoChunks text = Some chunks \<and> concat chunks = text"
proof (cases "length (encode text) \<le> MAX_CHUNK_SIZE")
  case True
  then show ?thesis by (simp add: splitTextIntoChunks_def)
next
  case False
  from sentenceLoop_returns [of "[]" "[]" "splitSentences text"]
  obtain chunks cur where run: "sentenceLoop [] [] (splitSentences text) = Some (chunks, cur)"
    and cat: "concat chunks @ cur = concat (splitSentences text)"
    by auto
  have "concat (splitSentences text) = text"
    by (simp add: splitSentences_def concat_splitAfter)
  with False run cat show ?thesis by (auto simp add: splitTextIntoChunks_def)
qed

text \<open>
  C6, as the code has it: for every text that is not empty, the splitter returns a list
  of chunks and none of them is the empty string.
\<close>

theorem splitTextIntoChunks_nonempty:
  "text \<noteq> []
   \<Longrightarrow> \<exists>chunks. splitTextIntoChunks text = Some chunks \<and> (\<forall>c \<in> set chunks. c \<noteq> [])"
proof (cases "length (encode text) \<le> MAX_CHUNK_SIZE")
  case True
  assume "text \<noteq> []"
  with True show ?thesis by (simp add: splitTextIntoChunks_def)
next
  case False
  from sentenceLoop_returns [of "[]" "[]" "splitSentences text"]
  obtain chunks cur where run: "sentenceLoop [] [] (splitSentences text) = Some (chunks, cur)"
    and ne: "\<forall>c \<in> set chunks. c \<noteq> []"
    by auto
  with False show ?thesis by (simp add: splitTextIntoChunks_def)
qed

theorem splitTextIntoChunks_nonempty_witness:
  "[0x61, 0x3002] @ replicate 4000 0x62 \<noteq> []
   \<and> (\<exists>chunks. splitTextIntoChunks ([0x61, 0x3002] @ replicate 4000 0x62) = Some chunks
         \<and> (\<forall>c \<in> set chunks. c \<noteq> []))"
proof -
  have h: "[0x61, 0x3002] @ replicate 4000 (0x62 :: codeunit) \<noteq> []" by simp
  show ?thesis using h splitTextIntoChunks_nonempty [OF h] by blast
qed

text \<open>
  C6 at the empty text: it fits in one chunk and comes back as the one chunk \<open>""\<close>,
  an empty string.
\<close>

theorem splitTextIntoChunks_empty_counterexample:
  "splitTextIntoChunks [] = Some [[]] \<and> [] \<in> set [[] :: jsstring]"
  by (simp add: splitTextIntoChunks_def encode_Nil)

text \<open>
  C10: the splitter returns on every text. In the character loop the prefix that is
  emitted has at least one code unit (halving a length of at least 1 stops at 1 or
  above, and extending never shortens), so the rest is strictly shorter than the string
  was, and the loop returns from every state.
\<close>

theorem splitTextIntoChunks_terminates:
  "(\<exists>chunks. splitTextIntoChunks text = Some chunks)
   \<and> (\<exists>chunks'. splitByCharacters chunks remaining = Some chunks')
   \<and> (remaining \<noteq> [] \<longrightarrow>
        1 \<le> chunkEnd remaining
        \<and> length (drop (chunkEnd remaining) remaining) < length remaining)
   \<and> (1 \<le> endPos \<longrightarrow> 1 \<le> halveEnd remaining endPos)
   \<and> endPos \<le> extendEnd remaining endPos"
proof -
  have d: "1 \<le> endPos \<longrightarrow> 1 \<le> halveEnd remaining endPos"
    using halveEnd_ge1 [of endPos remaining] by blast
  have e: "endPos \<le> extendEnd remaining endPos" by (rule extendEnd_ge)
  have a: "\<exists>chunks. splitTextIntoChunks text = Some chunks"
  proof (cases "length (encode text) \<le> MAX_CHUNK_SIZE")
    case True
    then show ?thesis by (simp add: splitTextIntoChunks_def)
  next
    case False
    from sentenceLoop_returns [of "[]" "[]" "splitSentences text"]
    obtain chunks cur where "sentenceLoop [] [] (splitSentences text) = Some (chunks, cur)"
      by auto
    with False show ?thesis by (simp add: splitTextIntoChunks_def)
  qed
  have b: "\<exists>chunks'. splitByCharacters chunks remaining = Some chunks'"
    using splitByCharacters_returns [of chunks remaining] by blast
  have c: "remaining \<noteq> [] \<longrightarrow>
        1 \<le> chunkEnd remaining
        \<and> length (drop (chunkEnd remaining) remaining) < length remaining"
  proof
    assume ne: "remaining \<noteq> []"
    then have "1 \<le> chunkEnd remaining" by (rule chunkEnd_ge1)
    with ne show "1 \<le> chunkEnd remaining
        \<and> length (drop (chunkEnd remaining) remaining) < length remaining"
      by simp
  qed
  from a b c d e show ?thesis by blast
qed

theorem splitTextIntoChunks_terminates_witness:
  "(\<exists>chunks. splitTextIntoChunks (replicate 3001 0x62) = Some chunks)
   \<and> (\<exists>chunks'. splitByCharacters [] (replicate 3001 0x62) = Some chunks')
   \<and> replicate 3001 (0x62 :: codeunit) \<noteq> []
   \<and> 1 \<le> chunkEnd (replicate 3001 0x62)
   \<and> length (drop (chunkEnd (replicate 3001 0x62)) (replicate 3001 (0x62 :: codeunit)))
       < length (replicate 3001 (0x62 :: codeunit))
   \<and> (1 :: nat) \<le> 3001
   \<and> 1 \<le> halveEnd (replicate 3001 0x62) 3001"
proof -
  have h: "replicate 3001 (0x62 :: codeunit) \<noteq> []" by simp
  have k: "(1 :: nat) \<le> 3001" by simp
  show ?thesis
    using h k
      splitTextIntoChunks_terminates
        [of "replicate 3001 0x62" "[]" "replicate 3001 0x62" 3001]
    by blast
qed

text \<open>
  C1 at the text \<open>"a"\<close>, U+3002, then 4000 times \<open>"b"\<close>: the second sentence follows a
  buffer that is not empty, becomes the buffer without being measured, and is returned
  as a chunk of 4000 bytes.
\<close>

theorem splitTextIntoChunks_oversized_chunk:
  "splitTextIntoChunks ([0x61, 0x3002] @ replicate 4000 0x62)
     = Some [[0x61, 0x3002], replicate 4000 0x62]
   \<and> length (encode (replicate 4000 0x62)) = 4000
   \<and> \<not> length (encode (replicate 4000 0x62)) \<le> MAX_CHUNK_SIZE"
proof -
  have "MAX_CHUNK_SIZE < 4000" by (simp add: MAX_CHUNK_SIZE_def)
  then show ?thesis
    using splitTextIntoChunks_long_second [of 4000]
    by (simp add: length_encode_replicate_b MAX_CHUNK_SIZE_def)
qed

text \<open>C7: a text of at most 3000 bytes comes back as the single chunk \<open>[text]\<close>.\<close>

theorem splitTextIntoChunks_small:
  "length (encode text) \<le> MAX_CHUNK_SIZE \<Longrightarrow> splitTextIntoChunks text = Some [text]"
  by (simp add: splitTextIntoChunks_def)

theorem splitTextIntoChunks_small_witness:
  "length (encode (ascii ''abc'')) \<le> MAX_CHUNK_SIZE
   \<and> splitTextIntoChunks (ascii ''abc'') = Some [ascii ''abc'']"
proof -
  have h: "length (encode (ascii ''abc'')) \<le> MAX_CHUNK_SIZE"
    by (simp add: encode_def ascii_def bmpScalar_def isSurrogate_def isHighSurrogate_def
        isLowSurrogate_def utf8_def MAX_CHUNK_SIZE_def)
  show ?thesis using h splitTextIntoChunks_small [OF h] by simp
qed

text \<open>
  C8 at a sentence of 3000 code units, \<open>"a"\<close>, 1499 times U+1F600 and \<open>"b"\<close>: the
  halving lands on position 1500, between the two code units of the 750th pair, and
  the prefix cannot be extended. Each half is encoded with U+FFFD for its lone
  surrogate: the first chunk ends with the bytes EF BF BD where the sentence has
  F0 9F 98, so its encoding is not the byte range of the sentence at its place, and the
  bytes of the two chunks together are not the bytes of the sentence.
\<close>

theorem splitByCharacters_cuts_surrogate_pair:
  "splitByCharacters []
     ((0x61 # concat (replicate 749 [0xD83D, 0xDE00]) @ [0xD83D])
        @ (0xDE00 # concat (replicate 749 [0xD83D, 0xDE00]) @ [0x62]))
   = Some [0x61 # concat (replicate 749 [0xD83D, 0xDE00]) @ [0xD83D],
           0xDE00 # concat (replicate 749 [0xD83D, 0xDE00]) @ [0x62]]
   \<and> splitTextIntoChunks
     ((0x61 # concat (replicate 749 [0xD83D, 0xDE00]) @ [0xD83D])
        @ (0xDE00 # concat (replicate 749 [0xD83D, 0xDE00]) @ [0x62]))
   = Some [0x61 # concat (replicate 749 [0xD83D, 0xDE00]) @ [0xD83D],
           0xDE00 # concat (replicate 749 [0xD83D, 0xDE00]) @ [0x62]]
   \<and> concat (map encode [0x61 # concat (replicate 749 [0xD83D, 0xDE00]) @ [0xD83D],
                          0xDE00 # concat (replicate 749 [0xD83D, 0xDE00]) @ [0x62]])
       \<noteq> encode ((0x61 # concat (replicate 749 [0xD83D, 0xDE00]) @ [0xD83D])
                   @ (0xDE00 # concat (replicate 749 [0xD83D, 0xDE00]) @ [0x62]))
   \<and> take (length (encode (0x61 # concat (replicate 749 [0xD83D, 0xDE00]) @ [0xD83D])))
         (encode ((0x61 # concat (replicate 749 [0xD83D, 0xDE00]) @ [0xD83D])
                   @ (0xDE00 # concat (replicate 749 [0xD83D, 0xDE00]) @ [0x62])))
       \<noteq> encode (0x61 # concat (replicate 749 [0xD83D, 0xDE00]) @ [0xD83D])"
proof -
  let ?P = "concat (replicate 749 [0xD83D, 0xDE00 :: codeunit])"
  let ?A = "0x61 # ?P @ [0xD83D]"
  let ?B = "0xDE00 # ?P @ [0x62]"
  have lenA: "length (encode ?A) = 3000"
    by (simp add: length_encode_a length_encode_pairs length_encode_hi)
  have lenB: "length (encode ?B) = 3000"
    by (simp add: length_encode_lo length_encode_pairs length_encode_b)
  have "?A @ [hd ?B] = 0x61 # ?P @ [0xD83D, 0xDE00]" by simp
  then have lenA1: "length (encode (?A @ [hd ?B])) = 3001"
    by (simp add: length_encode_a length_encode_pairs length_encode_hi_lo)
  have "?A @ ?B = 0x61 # ?P @ ([0xD83D, 0xDE00] @ ?P @ [0x62])" by simp
  moreover have "length (encode ([0xD83D, 0xDE00] @ ?P @ [0x62])) = 4 + (4 * 749 + 1)"
    using length_encode_pairs [of 1 "?P @ [0x62]"]
    by (simp add: length_encode_pairs length_encode_b)
  ultimately have lenAB: "length (encode (?A @ ?B)) = 5998"
    by (simp add: length_encode_a length_encode_pairs)
  have same: "length ?A = length ?B" by simp
  have ne: "?B \<noteq> []" by simp
  have plain: "\<forall>c \<in> set (?A @ ?B). \<not> isSentenceEnd c"
    using pairs_plain [of 749] by (simp add: isSentenceEnd_def)
  have big: "MAX_CHUNK_SIZE < length (encode (?A @ ?B))"
    using lenAB by (simp add: MAX_CHUNK_SIZE_def)
  have fitsA: "length (encode ?A) \<le> MAX_CHUNK_SIZE"
    using lenA by (simp add: MAX_CHUNK_SIZE_def)
  have over: "MAX_CHUNK_SIZE < length (encode (?A @ [hd ?B]))"
    using lenA1 by (simp add: MAX_CHUNK_SIZE_def)
  have fitsB: "length (encode ?B) \<le> MAX_CHUNK_SIZE"
    using lenB by (simp add: MAX_CHUNK_SIZE_def)
  have whole: "splitTextIntoChunks (?A @ ?B) = Some [?A, ?B]"
    using same ne big fitsA over fitsB plain by (rule splitTextIntoChunks_two)
  have chars: "splitByCharacters [] (?A @ ?B) = Some ([] @ [?A, ?B])"
    using same ne big fitsA over fitsB by (rule splitByCharacters_two)
  have sum: "length (concat (map encode [?A, ?B])) = 6000"
    using lenA lenB by simp
  have differ: "concat (map encode [?A, ?B]) \<noteq> encode (?A @ ?B)"
  proof
    assume "concat (map encode [?A, ?B]) = encode (?A @ ?B)"
    then have "length (concat (map encode [?A, ?B])) = length (encode (?A @ ?B))"
      by (rule arg_cong)
    with sum lenAB show False by simp
  qed
  from whole chars differ first_chunk_not_prefix show ?thesis by simp
qed

section \<open>Properties of the formatter, the remote call and the tool\<close>

text \<open>
  One round of the chunk loop that fails: an exception of \<open>getFurigana\<close> (a rejected
  \<open>fetch\<close>, a response that is not \<open>ok\<close>, a body that does not parse) leaves the loop
  unchanged, whereas an error object and a missing result are thrown with the position
  of the chunk. No further request is sent in any of the three cases.
\<close>

lemma chunkLoop_throws:
  "i < length chunks \<Longrightarrow> getFurigana service sent (chunks ! i) g = (Inl e, sent')
   \<Longrightarrow> chunkLoop service chunks g format i results sent = (Inl e, sent')"
  by (subst chunkLoop.simps) simp

lemma chunkLoop_error_object:
  "i < length chunks \<Longrightarrow> getFurigana service sent (chunks ! i) g = (Inr response, sent')
   \<Longrightarrow> error response = Some err
   \<Longrightarrow> chunkLoop service chunks g format i results sent
       = (Inl (Error (API_ERROR @ ascii '' '' @ chunkPosition i (length chunks)
                       @ ascii '': '' @ message err)), sent')"
  by (subst chunkLoop.simps) simp

lemma chunkLoop_no_result:
  "i < length chunks \<Longrightarrow> getFurigana service sent (chunks ! i) g = (Inr response, sent')
   \<Longrightarrow> error response = None \<Longrightarrow> result response = None
   \<Longrightarrow> chunkLoop service chunks g format i results sent
       = (Inl (Error (NO_RESULT @ ascii '' '' @ chunkPosition i (length chunks))), sent')"
  by (subst chunkLoop.simps) simp

lemma getFurigana_http_error:
  "service (length sent) (requestBody text' g) = Fulfilled response \<Longrightarrow> \<not> ok response
   \<Longrightarrow> getFurigana service sent text' g
       = (Inl (Error (ascii ''HTTP error: '' @ numberToString (status response)
                       @ ascii '' '' @ statusText response)),
          sent @ [requestBody text' g])"
  by (simp add: getFurigana_def)

lemma numberToString_500: "numberToString 500 = ascii ''500''"
  by (simp add: numberToString.simps ascii_def)

lemma numberToString_digit: "n < 10 \<Longrightarrow> numberToString n = [of_nat (48 + n)]"
  by (subst numberToString.simps) simp

lemma chunkLoop_second_fails:
  "chunkLoop secondCallFails [c1, c2] None (ascii ''ruby'') 0 [] []
   = (Inl (Error (ascii ''HTTP error: 500 Internal Server Error'')),
      [requestBody c1 None, requestBody c2 None])"
  apply (subst chunkLoop.simps)
  apply (simp add: getFurigana_def secondCallFails_def okResponse_def kanjiResponse_def kanjiResult_def)
  apply (subst chunkLoop.simps)
  apply (simp add: getFurigana_def secondCallFails_def numberToString_500)
  apply (simp add: ascii_def)
  done

lemma chunkLoop_second_reports:
  "chunkLoop secondCallReportsError [c1, c2] None (ascii ''ruby'') 0 [] []
   = (Inl (Error (API_ERROR @ ascii '' ('' @ CHUNK @ ascii '' 2/2): x'')),
      [requestBody c1 None, requestBody c2 None])"
  apply (subst chunkLoop.simps)
  apply (simp add: getFurigana_def secondCallReportsError_def okResponse_def kanjiResponse_def kanjiResult_def)
  apply (subst chunkLoop.simps)
  apply (simp add: getFurigana_def secondCallReportsError_def chunkPosition_def numberToString_digit)
  apply (simp add: ascii_def)
  done

lemma length_encode_kanji: "length (encode [0x6F22, 0x5B57]) = 6"
  by (simp add: encode_def utf8_def bmpScalar_def isSurrogate_def isHighSurrogate_def
      isLowSurrogate_def)

lemma getFurigana_sent: "snd (getFurigana service sent text og) = sent @ [requestBody text og]"
  by (simp add: getFurigana_def Let_def split: fetched.split)

lemma requestBody_out_of_range:
  "g < 1 \<or> 8 < g \<Longrightarrow> requestBody text (Some g) = requestBody text None"
  by (auto simp add: requestBody_def)

lemma handler_kanji:
  "handler okService [] [0x6F22, 0x5B57] None None
   = Some (\<lparr>content = ascii ''<ruby>'' @ [0x6F22, 0x5B57] @ ascii ''<rt>''
                        @ [0x304B, 0x3093, 0x3058] @ ascii ''</rt></ruby>'',
              isError = False\<rparr>,
           [requestBody [0x6F22, 0x5B57] None])"
  by (simp add: handler_def processTextWithChunking_def splitTextIntoChunks_def
      length_encode_kanji MAX_CHUNK_SIZE_def processChunks_def getFurigana_def okService_def
      okResponse_def kanjiResponse_def kanjiResult_def formatResult_def formatRuby_def
      rubyPart_def truthy_def orEmpty_def)

subsection \<open>Claims about formatting, grade, default style and failures\<close>

text \<open>
  C4 at the particle U+306E (reading equal to the surface, no subwords) in the roman
  style, and at a word with a subword list in the bracket style: neither output is the
  bare surface.
\<close>

theorem format_same_furigana_counterexample:
  "furigana particleNo = Some (surface particleNo)
   \<and> formatResult \<lparr>word = [particleNo]\<rparr> (ascii ''roman'')
       = [0x306E] @ ascii '': '' @ [0x306E] @ ascii '' (no)''
   \<and> formatResult \<lparr>word = [particleNo]\<rparr> (ascii ''roman'') \<noteq> surface particleNo
   \<and> furigana kanjiWithSubword = Some (surface kanjiWithSubword)
   \<and> formatResult \<lparr>word = [kanjiWithSubword]\<rparr> (ascii ''bracket'')
       = [0x6F22, 0xFF08, 0x304B, 0x3093, 0xFF09]
   \<and> formatResult \<lparr>word = [kanjiWithSubword]\<rparr> (ascii ''bracket'')
       \<noteq> surface kanjiWithSubword"
  by (simp add: particleNo_def kanjiWithSubword_def formatResult_def formatWithRoman_def
      formatBracket_def romanLine_def bracketPart_def subBracket_def truthy_def
      orEmpty_def ascii_def)

text \<open>
  C4, as the code has it, for a Word whose furigana is present and equal to its surface.
  Without a subword list, the bracket and ruby styles give the bare surface. With a
  subword list, they give the renderings of its subwords, joined. The roman style
  suppresses nothing: without a subword list it prints \<open>surface: furigana (roman)\<close>
  when the surface or the roman is not empty (the bare surface otherwise), and with a
  subword list it prints \<open>surface:\<close>, a line feed and one line per subword.
\<close>

theorem format_same_furigana:
  assumes "furigana w = Some (surface w)"
  shows "(subword w = None \<longrightarrow>
            bracketPart w = surface w \<and> rubyPart w = surface w
            \<and> formatResult \<lparr>word = [w]\<rparr> (ascii ''bracket'') = surface w
            \<and> formatResult \<lparr>word = [w]\<rparr> (ascii ''ruby'') = surface w)
       \<and> (\<forall>sws. subword w = Some sws \<longrightarrow>
            bracketPart w = join [] (map subBracket sws)
            \<and> rubyPart w = join [] (map subRuby sws)
            \<and> formatResult \<lparr>word = [w]\<rparr> (ascii ''bracket'') = join [] (map subBracket sws)
            \<and> formatResult \<lparr>word = [w]\<rparr> (ascii ''ruby'') = join [] (map subRuby sws))
       \<and> (subword w = None \<longrightarrow>
            romanLine w
              = (if surface w \<noteq> [] \<or> orEmpty (roman w) \<noteq> []
                 then surface w @ ascii '': '' @ surface w @ ascii '' (''
                        @ orEmpty (roman w) @ ascii '')''
                 else surface w)
            \<and> formatResult \<lparr>word = [w]\<rparr> (ascii ''roman'') = romanLine w)
       \<and> (\<forall>sws. subword w = Some sws \<longrightarrow>
            romanLine w = surface w @ [0x3A, 0x0A] @ join [0x0A] (map subDetail sws)
            \<and> formatResult \<lparr>word = [w]\<rparr> (ascii ''roman'') = romanLine w)"
  using assms
  by (simp add: bracketPart_def rubyPart_def formatResult_def formatBracket_def formatRuby_def
      formatWithRoman_def romanLine_def orEmpty_def ascii_def)

theorem format_same_furigana_witness:
  "furigana particleNo = Some (surface particleNo) \<and> subword particleNo = None
   \<and> formatResult \<lparr>word = [particleNo]\<rparr> (ascii ''bracket'') = surface particleNo
   \<and> formatResult \<lparr>word = [particleNo]\<rparr> (ascii ''ruby'') = surface particleNo
   \<and> formatResult \<lparr>word = [particleNo]\<rparr> (ascii ''roman'')
       = [0x306E] @ ascii '': '' @ [0x306E] @ ascii '' (no)''
   \<and> furigana kanjiWithSubword = Some (surface kanjiWithSubword)
   \<and> subword kanjiWithSubword
       = Some [\<lparr>surface = [0x6F22], furigana = Some [0x304B, 0x3093], roman = None\<rparr>]
   \<and> formatResult \<lparr>word = [kanjiWithSubword]\<rparr> (ascii ''bracket'')
       = join [] (map subBracket
                    [\<lparr>surface = [0x6F22], furigana = Some [0x304B, 0x3093], roman = None\<rparr>])
   \<and> formatResult \<lparr>word = [kanjiWithSubword]\<rparr> (ascii ''ruby'')
       = join [] (map subRuby
                    [\<lparr>surface = [0x6F22], furigana = Some [0x304B, 0x3093], roman = None\<rparr>])
   \<and> formatResult \<lparr>word = [kanjiWithSubword]\<rparr> (ascii ''roman'')
       = [0x6F22, 0x3A, 0x0A] @ ascii ''  - '' @ [0x6F22] @ ascii '': ''
           @ [0x304B, 0x3093] @ ascii '' ()''"
proof -
  have h1: "furigana particleNo = Some (surface particleNo)" by (simp add: particleNo_def)
  have n1: "subword particleNo = None" by (simp add: particleNo_def)
  have h2: "furigana kanjiWithSubword = Some (surface kanjiWithSubword)"
    by (simp add: kanjiWithSubword_def)
  have n2: "subword kanjiWithSubword
       = Some [\<lparr>surface = [0x6F22], furigana = Some [0x304B, 0x3093], roman = None\<rparr>]"
    by (simp add: kanjiWithSubword_def)
  have r1: "romanLine particleNo = [0x306E] @ ascii '': '' @ [0x306E] @ ascii '' (no)''"
    using n1 format_same_furigana [OF h1]
    by (simp add: particleNo_def orEmpty_def ascii_def)
  have r2: "romanLine kanjiWithSubword
       = [0x6F22, 0x3A, 0x0A] @ ascii ''  - '' @ [0x6F22] @ ascii '': ''
           @ [0x304B, 0x3093] @ ascii '' ()''"
    using n2 format_same_furigana [OF h2]
    by (simp add: kanjiWithSubword_def subDetail_def orEmpty_def ascii_def)
  show ?thesis
    using h1 n1 h2 n2 r1 r2 format_same_furigana [OF h1] format_same_furigana [OF h2]
    by simp
qed

text \<open>
  C5 at grade 9: the schema of the tool refuses the call, the handler does not run and
  no request is sent, whereas the same call without a grade is answered.
\<close>

theorem grade_out_of_range_counterexample:
  "gen_furigana okService [] [0x6F22, 0x5B57] (Some 9) None = Some (InvalidArguments, [])
   \<and> gen_furigana okService [] [0x6F22, 0x5B57] None None
       = Some (Handled \<lparr>content = ascii ''<ruby>'' @ [0x6F22, 0x5B57] @ ascii ''<rt>''
                                   @ [0x304B, 0x3093, 0x3058] @ ascii ''</rt></ruby>'',
                         isError = False\<rparr>,
               [requestBody [0x6F22, 0x5B57] None])"
  by (simp add: gen_furigana_def schemaAccepts_def handler_kanji)

text \<open>
  C5, as the code has it: a grade outside 1 to 8 does not pass the schema of the tool,
  so the handler is not called and nothing is sent. Inside \<open>getFurigana\<close> such a grade
  is treated as absent. Every request carries the text as \<open>q\<close>, and carries a grade
  exactly when one is given and lies between 1 and 8.
\<close>

theorem grade_out_of_range:
  "(g < 1 \<or> 8 < g \<longrightarrow>
      gen_furigana service sent text (Some g) output_format = Some (InvalidArguments, sent)
      \<and> getFurigana service sent text (Some g) = getFurigana service sent text None)
   \<and> snd (getFurigana service sent text og) = sent @ [requestBody text og]
   \<and> q (params (requestBody text og)) = text
   \<and> (grade (params (requestBody text og)) = Some v) = (og = Some v \<and> 1 \<le> v \<and> v \<le> 8)"
proof -
  have a: "g < 1 \<or> 8 < g \<longrightarrow>
      gen_furigana service sent text (Some g) output_format = Some (InvalidArguments, sent)"
    by (auto simp add: gen_furigana_def schemaAccepts_def)
  have b: "g < 1 \<or> 8 < g \<longrightarrow>
      getFurigana service sent text (Some g) = getFurigana service sent text None"
    by (simp add: getFurigana_def requestBody_out_of_range)
  have c: "q (params (requestBody text og)) = text"
    by (simp add: requestBody_def)
  have d: "(grade (params (requestBody text og)) = Some v) = (og = Some v \<and> 1 \<le> v \<and> v \<le> 8)"
    by (cases og) (auto simp add: requestBody_def)
  from a b c d getFurigana_sent [of service sent "text" og] show ?thesis by blast
qed

theorem grade_out_of_range_witness:
  "((9 :: rat) < 1 \<or> (8 :: rat) < 9)
   \<and> gen_furigana okService [] [0x6F22, 0x5B57] (Some 9) None = Some (InvalidArguments, [])
   \<and> getFurigana okService [] [0x6F22, 0x5B57] (Some 9)
       = getFurigana okService [] [0x6F22, 0x5B57] None
   \<and> (grade (params (requestBody [0x6F22, 0x5B57] (Some 3))) = Some 3)"
proof -
  have h: "(9 :: rat) < 1 \<or> (8 :: rat) < 9" by simp
  show ?thesis
    using h grade_out_of_range [of 9 okService "[]" "[0x6F22, 0x5B57]" None "Some 3" 3]
    by simp
qed



text \<open>
  C3 at the text \<open>"a"\<close>, U+3002, then 4000 times \<open>"b"\<close>, which is split into two chunks.
  When the second call comes back with HTTP status 500, the exception of \<open>getFurigana\<close>
  leaves the loop as it is: its message names neither the chunk nor the number of
  chunks. When the second call comes back with an error object, the message names
  chunk 2 of 2. In both runs the two requests are all that was sent.
\<close>

theorem transport_failure_not_attributed:
  "processTextWithChunking secondCallFails [] ([0x61, 0x3002] @ replicate 4000 0x62) None
     (ascii ''ruby'')
   = Some (Inl (Error (ascii ''HTTP error: 500 Internal Server Error'')),
           [requestBody [0x61, 0x3002] None, requestBody (replicate 4000 0x62) None])
   \<and> processTextWithChunking secondCallReportsError []
       ([0x61, 0x3002] @ replicate 4000 0x62) None (ascii ''ruby'')
   = Some (Inl (Error (API_ERROR @ ascii '' ('' @ CHUNK @ ascii '' 2/2): x'')),
           [requestBody [0x61, 0x3002] None, requestBody (replicate 4000 0x62) None])"
proof -
  have "MAX_CHUNK_SIZE < 4000" by (simp add: MAX_CHUNK_SIZE_def)
  then have split: "splitTextIntoChunks (0x61 # 0x3002 # replicate 4000 0x62)
      = Some [[0x61, 0x3002], replicate 4000 0x62]"
    by (rule splitTextIntoChunks_long_second)
  show ?thesis
    by (simp add: processTextWithChunking_def split processChunks_def
        chunkLoop_second_fails chunkLoop_second_reports)
qed

end
